theory Spec2Isabelle
  imports Main "HOL-Library.Word" "HOL-Library.Sublist"
begin

section \<open>JavaScript strings\<close>

text \<open>
  A JavaScript string is a sequence of UTF-16 code units, and \<open>length\<close> counts code
  units. String literals of the source are all ASCII; \<open>lit\<close> embeds them.
\<close>

type_synonym jschar = "16 word"
type_synonym jsstring = "jschar list"

definition lit :: "string \<Rightarrow> jsstring" where
  "lit s = map (\<lambda>c. of_nat (of_char c)) s"

text \<open>
  \<open>String.prototype.trim\<close> removes leading and trailing WhiteSpace and LineTerminator
  code points (ECMAScript): TAB, VT, FF, ZWNBSP, the Unicode space separators, and
  LF, CR, LS, PS. All of them are single code units.
\<close>

definition white_space :: "jschar list" where
  "white_space =
     [0x0009, 0x000A, 0x000B, 0x000C, 0x000D, 0x0020, 0x00A0, 0x1680,
      0x2000, 0x2001, 0x2002, 0x2003, 0x2004, 0x2005, 0x2006, 0x2007,
      0x2008, 0x2009, 0x200A, 0x2028, 0x2029, 0x202F, 0x205F, 0x3000, 0xFEFF]"

definition is_ws :: "jschar \<Rightarrow> bool" where
  "is_ws c = (List.member white_space c)"

definition trim :: "jsstring \<Rightarrow> jsstring" where
  "trim s = rev (dropWhile is_ws (rev (dropWhile is_ws s)))"

text \<open>Truthiness of a value of type \<open>string | undefined\<close>: defined and non-empty.\<close>

fun truthy :: "jsstring option \<Rightarrow> bool" where
  "truthy None = False"
| "truthy (Some s) = (s \<noteq> [])"

text \<open>\<open>a || b\<close> on \<open>string | undefined\<close> with a string default.\<close>

definition js_or :: "jsstring option \<Rightarrow> jsstring \<Rightarrow> jsstring" where
  "js_or a b = (case a of None \<Rightarrow> b | Some s \<Rightarrow> if s = [] then b else s)"


section \<open>The task form: data\<close>

text \<open>\<open>keyof TaskFormData\<close>.\<close>

datatype field = Title | Description | Priority

text \<open>
  \<open>TaskFormData\<close>. The priority is kept as a string: the form stores whatever value the
  change event carries, and \<open>validateField\<close> checks it against the three literals.
\<close>

record form_data =
  title :: jsstring
  description :: jsstring
  priority :: jsstring

fun field_value :: "form_data \<Rightarrow> field \<Rightarrow> jsstring" where
  "field_value d Title = title d"
| "field_value d Description = description d"
| "field_value d Priority = priority d"

fun set_field :: "form_data \<Rightarrow> field \<Rightarrow> jsstring \<Rightarrow> form_data" where
  "set_field d Title v = d\<lparr>title := v\<rparr>"
| "set_field d Description v = d\<lparr>description := v\<rparr>"
| "set_field d Priority v = d\<lparr>priority := v\<rparr>"


section \<open>Field validation\<close>

definition msg_required :: jsstring where
  "msg_required = lit ''Title is required''"

definition msg_too_short :: jsstring where
  "msg_too_short = lit ''Title must be at least 3 characters''"

definition msg_too_long :: jsstring where
  "msg_too_long = lit ''Title must be less than 100 characters''"

definition msg_description :: jsstring where
  "msg_description = lit ''Description must be less than 500 characters''"

definition msg_priority :: jsstring where
  "msg_priority = lit ''Please select a valid priority''"

fun validateField :: "field \<Rightarrow> jsstring \<Rightarrow> jsstring option" where
  "validateField Title v =
     (if trim v = [] then Some msg_required
      else if length (trim v) < 3 then Some msg_too_short
      else if length (trim v) > 100 then Some msg_too_long
      else None)"
| "validateField Description v =
     (if length v > 500 then Some msg_description else None)"
| "validateField Priority v =
     (if \<not> List.member [lit ''low'', lit ''medium'', lit ''high''] v
      then Some msg_priority else None)"


section \<open>The task form: state, handlers and the submit protocol\<close>

text \<open>
  The props of \<open>TaskForm\<close> that the handlers read: \<open>initialData\<close>, a
  \<open>Partial<TaskFormData>\<close> that defaults to \<open>{}\<close> when the prop is omitted.
\<close>

record initial_data =
  init_title :: "jsstring option"
  init_description :: "jsstring option"
  init_priority :: "jsstring option"

definition no_initial_data :: initial_data where
  "no_initial_data = \<lparr>init_title = None, init_description = None, init_priority = None\<rparr>"

definition initialData :: "initial_data option \<Rightarrow> initial_data" where
  "initialData p = (case p of None \<Rightarrow> no_initial_data | Some d \<Rightarrow> d)"

text \<open>
  The three \<open>useState\<close> cells. \<open>errors\<close> maps a field to \<open>string | undefined\<close>;
  \<open>touched\<close> is a \<open>Record<string, boolean>\<close> read only for its truthiness, so a missing
  key is \<open>False\<close>.
\<close>

record form_state =
  formData :: form_data
  errors :: "field \<Rightarrow> jsstring option"
  touched :: "field \<Rightarrow> bool"

definition default_form_data :: form_data where
  "default_form_data = \<lparr>title = [], description = [], priority = lit ''medium''\<rparr>"

definition initial_state :: "initial_data option \<Rightarrow> form_state" where
  "initial_state p =
     \<lparr>formData =
        \<lparr>title = js_or (init_title (initialData p)) [],
         description = js_or (init_description (initialData p)) [],
         priority = js_or (init_priority (initialData p)) (lit ''medium'')\<rparr>,
      errors = (\<lambda>_. None),
      touched = (\<lambda>_. False)\<rparr>"

text \<open>\<open>validateForm\<close>: every field is validated; the form is valid when no error is truthy.\<close>

record validation =
  isValid :: bool
  v_errors :: "field \<Rightarrow> jsstring option"

definition validateForm :: "form_data \<Rightarrow> validation" where
  "validateForm d =
     (let newErrors = (\<lambda>f. validateField f (field_value d f));
          hasErrors = list_ex (\<lambda>f. truthy (newErrors f)) [Title, Description, Priority]
      in \<lparr>isValid = \<not> hasErrors, v_errors = newErrors\<rparr>)"

text \<open>
  A handler is the sequence of its effects in program order: calls of the three state
  setters (each with its updater), a \<open>flushSync\<close> block of setter calls, a call of the
  \<open>onSubmit\<close> prop, and \<open>preventDefault\<close> on the event. A handler reads \<open>formData\<close>
  and \<open>touched\<close> from the render it belongs to, the state \<open>s\<close> here. The \<open>onSubmit\<close>
  prop is taken to return normally. The props do not change during the life of the form,
  so the effect that re-seeds \<open>formData\<close> when \<open>initialData\<close> changes never runs after
  the first render, where it stores the initial values again.
\<close>

datatype update =
    SetFormData "form_data \<Rightarrow> form_data"
  | SetErrors "(field \<Rightarrow> jsstring option) \<Rightarrow> (field \<Rightarrow> jsstring option)"
  | SetTouched "(field \<Rightarrow> bool) \<Rightarrow> (field \<Rightarrow> bool)"

datatype effect =
    PreventDefault
  | FlushSync "update list"
  | Set update
  | OnSubmit form_data

definition handleInputChange :: "form_state \<Rightarrow> field \<Rightarrow> jsstring \<Rightarrow> effect list" where
  "handleInputChange s name v =
     Set (SetFormData (\<lambda>prev. set_field prev name v)) #
     (if touched s name
      then [Set (SetErrors (\<lambda>prev. prev(name := validateField name v)))]
      else [])"

definition handleBlur :: "form_state \<Rightarrow> field \<Rightarrow> jsstring \<Rightarrow> effect list" where
  "handleBlur s name v =
     [Set (SetTouched (\<lambda>prev. prev(name := True))),
      Set (SetErrors (\<lambda>prev. prev(name := validateField name v)))]"

definition handleSubmit :: "initial_data option \<Rightarrow> form_state \<Rightarrow> effect list" where
  "handleSubmit p s =
     (let validation = validateForm (formData s);
          newTouched = (\<lambda>_. True)
      in PreventDefault #
         FlushSync [SetTouched (\<lambda>_. newTouched), SetErrors (\<lambda>_. v_errors validation)] #
         (if \<not> isValid validation then []
          else OnSubmit (formData s) #
               (if \<not> truthy (init_title (initialData p))
                then [Set (SetFormData (\<lambda>_. default_form_data)),
                      Set (SetTouched (\<lambda>_ _. False)),
                      Set (SetErrors (\<lambda>_ _. None))]
                else [])))"

text \<open>
  How React runs a handler. Setter calls made in an event handler are queued and applied
  together in one render when the handler returns; \<open>flushSync\<close> applies the queue and the
  setter calls of its block at once and renders before it returns. Every render commits
  one state, which is what an observer of the DOM can see; \<open>commits\<close> lists them in order.
\<close>

fun apply_update :: "update \<Rightarrow> form_state \<Rightarrow> form_state" where
  "apply_update (SetFormData g) s = s\<lparr>formData := g (formData s)\<rparr>"
| "apply_update (SetErrors g) s = s\<lparr>errors := g (errors s)\<rparr>"
| "apply_update (SetTouched g) s = s\<lparr>touched := g (touched s)\<rparr>"

record outcome =
  final :: form_state
  commits :: "form_state list"
  calls :: "form_data list"
  prevented :: bool

fun run :: "effect list \<Rightarrow> form_state \<Rightarrow> update list \<Rightarrow> outcome" where
  "run [] s q =
     (case q of
        [] \<Rightarrow> \<lparr>final = s, commits = [], calls = [], prevented = False\<rparr>
      | _ # _ \<Rightarrow> \<lparr>final = fold apply_update q s, commits = [fold apply_update q s],
                 calls = [], prevented = False\<rparr>)"
| "run (PreventDefault # es) s q = (run es s q)\<lparr>prevented := True\<rparr>"
| "run (Set u # es) s q = run es s (q @ [u])"
| "run (FlushSync us # es) s q =
     (let s' = fold apply_update (q @ us) s; r = run es s' []
      in r\<lparr>commits := s' # commits r\<rparr>)"
| "run (OnSubmit d # es) s q =
     (let r = run es s q in r\<lparr>calls := d # calls r\<rparr>)"

datatype event = Change field jsstring | Blur field jsstring | Submit

fun handler :: "initial_data option \<Rightarrow> form_state \<Rightarrow> event \<Rightarrow> effect list" where
  "handler p s (Change name v) = handleInputChange s name v"
| "handler p s (Blur name v) = handleBlur s name v"
| "handler p s Submit = handleSubmit p s"

definition dispatch :: "initial_data option \<Rightarrow> form_state \<Rightarrow> event \<Rightarrow> outcome" where
  "dispatch p s ev = run (handler p s ev) s []"

text \<open>The states the form can be in: the initial one and those left by handled events.\<close>

inductive reachable :: "initial_data option \<Rightarrow> form_state \<Rightarrow> bool" for p where
  reachable_init: "reachable p (initial_state p)"
| reachable_step: "reachable p s \<Longrightarrow> reachable p (final (dispatch p s ev))"

text \<open>
  What the component renders for a field's error: the alert paragraph with the
  message when \<open>errors[f] && touched[f]\<close>, nothing otherwise.
\<close>

definition rendered_error :: "form_state \<Rightarrow> field \<Rightarrow> jsstring option" where
  "rendered_error s f = (if truthy (errors s f) \<and> touched s f then errors s f else None)"

text \<open>
  The states an observer of the DOM can see: the reachable ones, and every state committed
  while an event is handled (a submit commits the flushed state before it resets).
\<close>

inductive observable :: "initial_data option \<Rightarrow> form_state \<Rightarrow> bool" for p where
  observable_reachable: "reachable p s \<Longrightarrow> observable p s"
| observable_commit:
    "reachable p s \<Longrightarrow> s' \<in> set (commits (dispatch p s ev)) \<Longrightarrow> observable p s'"

text \<open>The state the create-mode reset installs.\<close>

definition reset_state :: form_state where
  "reset_state = \<lparr>formData = default_form_data, errors = (\<lambda>_. None), touched = (\<lambda>_. False)\<rparr>"


section \<open>Tasks and the container's operations\<close>

text \<open>
  A \<open>Date\<close> is its time value, milliseconds since the epoch. The wall clock is read by
  \<open>Date.now()\<close> and by \<open>new Date()\<close>; \<open>clk n\<close> is the value of the \<open>n\<close>-th reading,
  and every operation takes the number of readings made so far.
\<close>

type_synonym timestamp = nat
type_synonym clock = "nat \<Rightarrow> timestamp"

record task =
  task_id :: jsstring
  task_title :: jsstring
  task_description :: "jsstring option"
  completed :: bool
  task_priority :: jsstring
  createdAt :: timestamp
  updatedAt :: timestamp

text \<open>The decimal digits of a number, as a template literal renders it.\<close>

fun decimal :: "nat \<Rightarrow> jsstring" where
  "decimal n =
     (if n < 10 then [of_nat (48 + n)]
      else decimal (n div 10) @ [of_nat (48 + n mod 10)])"

declare decimal.simps [simp del]

text \<open>Reading a decimal numeral back, to tell when two ids are the same.\<close>

definition undecimal :: "jsstring \<Rightarrow> nat" where
  "undecimal s = foldl (\<lambda>a c. 10 * a + (unat c - 48)) 0 s"

text \<open>
  \<open>handleCreateTask\<close>, the same in the page and in the test runner: the object literal
  reads the clock three times, in the order of its properties, and the new task goes to
  the front. The page runs this in a timer callback 500 ms after the submit. The result
  carries the number of clock readings made.
\<close>

definition newTask :: "clock \<Rightarrow> nat \<Rightarrow> form_data \<Rightarrow> task" where
  "newTask clk k taskData =
     \<lparr>task_id = lit ''task-'' @ decimal (clk k),
      task_title = title taskData,
      task_description = Some (description taskData),
      completed = False,
      task_priority = priority taskData,
      createdAt = clk (k + 1),
      updatedAt = clk (k + 2)\<rparr>"

definition handleCreateTask :: "clock \<Rightarrow> nat \<Rightarrow> form_data \<Rightarrow> task list \<Rightarrow> task list \<times> nat" where
  "handleCreateTask clk k taskData prevTasks = (newTask clk k taskData # prevTasks, k + 3)"

text \<open>
  \<open>handleDeleteTask\<close>, the same in the page and in the test runner: the tasks whose id
  differs are kept, in their order.
\<close>

definition handleDeleteTask :: "jsstring \<Rightarrow> task list \<Rightarrow> task list" where
  "handleDeleteTask taskId prevTasks = filter (\<lambda>t. task_id t \<noteq> taskId) prevTasks"

text \<open>
  \<open>handleToggleComplete\<close>, again the same in both places, maps over the collection; a
  task with the given id is replaced
  by the object \<open>{...task, completed: !task.completed, updatedAt: new Date()}\<close>, any other
  task is returned as it is. To tell a new object from a mutated one, tasks live in a heap
  and the collection is a list of references: the object at address \<open>r\<close> is \<open>h ! r\<close>, and an
  object literal allocates at the end of the heap.
\<close>

type_synonym ref = nat
type_synonym heap = "task list"

definition alloc :: "heap \<Rightarrow> task \<Rightarrow> heap \<times> ref" where
  "alloc h obj = (h @ [obj], length h)"

definition toggled :: "clock \<Rightarrow> nat \<Rightarrow> task \<Rightarrow> task" where
  "toggled clk k t = t\<lparr>completed := \<not> completed t, updatedAt := clk k\<rparr>"

fun handleToggleComplete ::
  "clock \<Rightarrow> nat \<Rightarrow> jsstring \<Rightarrow> heap \<Rightarrow> ref list \<Rightarrow> heap \<times> ref list" where
  "handleToggleComplete clk k taskId h [] = (h, [])"
| "handleToggleComplete clk k taskId h (r # rs) =
     (if task_id (h ! r) = taskId
      then (case alloc h (toggled clk k (h ! r)) of (h1, r') \<Rightarrow>
              (case handleToggleComplete clk (Suc k) taskId h1 rs of
                 (h2, rs') \<Rightarrow> (h2, r' # rs')))
      else (case handleToggleComplete clk k taskId h rs of
              (h2, rs') \<Rightarrow> (h2, r # rs')))"

text \<open>The collection as values, and the same map on values.\<close>

definition tasks_of :: "heap \<Rightarrow> ref list \<Rightarrow> task list" where
  "tasks_of h rs = map (\<lambda>r. h ! r) rs"

fun toggle_values :: "clock \<Rightarrow> nat \<Rightarrow> jsstring \<Rightarrow> task list \<Rightarrow> task list" where
  "toggle_values clk k taskId [] = []"
| "toggle_values clk k taskId (t # ts) =
     (if task_id t = taskId then toggled clk k t # toggle_values clk (Suc k) taskId ts
      else t # toggle_values clk k taskId ts)"

text \<open>Every reference of a collection points into the heap.\<close>

definition wf_refs :: "heap \<Rightarrow> ref list \<Rightarrow> bool" where
  "wf_refs h rs = list_all (\<lambda>r. r < length h) rs"

text \<open>
  The number of clock readings \<open>handleToggleComplete\<close> has made before it reaches
  position \<open>i\<close>: one for each matching task in front of it.
\<close>

definition matches_before :: "jsstring \<Rightarrow> heap \<Rightarrow> ref list \<Rightarrow> nat \<Rightarrow> nat" where
  "matches_before taskId h rs i = length (filter (\<lambda>r. task_id (h ! r) = taskId) (take i rs))"


section \<open>The visual test runner\<close>

record test_result =
  passed :: bool
  message :: jsstring
  details :: "jsstring option"

datatype category = FormCategory | ListCategory | IntegrationCategory

text \<open>
  What a scenario can throw: an \<open>Error\<close> object with its name and message; any other
  value that converts to a string, given by that string; or a value whose conversion to a
  string throws (a Symbol, an object without \<open>toString\<close> such as \<open>Object.create(null)\<close>,
  an object whose \<open>toString\<close> throws), given by what the conversion throws.
  \<open>to_string\<close> is what a template literal does with the value
  (\<open>Error.prototype.toString\<close> for an \<open>Error\<close>): \<open>Inr\<close> the string, \<open>Inl\<close> the
  value thrown instead.
\<close>

datatype thrown =
    ErrorObject jsstring jsstring
  | OtherValue jsstring
  | Unconvertible thrown

fun to_string :: "thrown \<Rightarrow> thrown + jsstring" where
  "to_string (ErrorObject name msg) =
     Inr (if name = [] then msg else if msg = [] then name else name @ lit '': '' @ msg)"
| "to_string (OtherValue s) = Inr s"
| "to_string (Unconvertible e) = Inl e"

fun error_message :: "thrown \<Rightarrow> jsstring" where
  "error_message (ErrorObject name msg) = msg"
| "error_message (OtherValue s) = s"
| "error_message (Unconvertible e) = []"

text \<open>The \<open>TypeError\<close> that the conversion of a Symbol throws, and a thrown Symbol.\<close>

definition symbol_type_error :: thrown where
  "symbol_type_error =
     ErrorObject (lit ''TypeError'') (lit ''Cannot convert a Symbol value to a string'')"

definition thrown_symbol :: thrown where
  "thrown_symbol = Unconvertible symbol_type_error"

text \<open>
  A scenario. Its \<open>execute\<close> acts on the world it drives (the DOM and the component
  state behind the context) and either returns a result or throws; the awaited promise is
  taken to settle.
\<close>

record 'w test_case =
  tc_id :: jsstring
  tc_name :: jsstring
  tc_description :: jsstring
  tc_category :: category
  execute :: "'w \<Rightarrow> (thrown + test_result) \<times> 'w"

record runner =
  testResults :: "jsstring \<rightharpoonup> test_result"
  isRunning :: bool
  selectedTest :: "jsstring option"

text \<open>
  \<open>runAllTests\<close>. The loop takes the scenarios in the order of \<open>testCases\<close>: it selects
  the scenario, runs it in a \<open>try\<close> block and stores its result in the local \<open>results\<close>.
  The \<open>catch\<close> block builds the failed result with a template literal over the thrown
  value; when that conversion throws, nothing catches it: the loop is left, and
  \<open>runAllTests\<close> ends (its promise rejects) without reaching \<open>setTestResults\<close>,
  \<open>setIsRunning(false)\<close> and \<open>setSelectedTest(null)\<close>. The loop returns \<open>Inr\<close> the
  results or \<open>Inl\<close> the value that ended it, with the world, the runner state and the ids
  passed to \<open>setSelectedTest\<close>, in order.
\<close>

definition failed_result :: "jsstring \<Rightarrow> test_result" where
  "failed_result s = \<lparr>passed = False, message = lit ''Error: '' @ s, details = None\<rparr>"

fun runAll_loop ::
  "'w test_case list \<Rightarrow> 'w \<Rightarrow> runner \<Rightarrow> (jsstring \<rightharpoonup> test_result) \<Rightarrow> jsstring list
     \<Rightarrow> (thrown + (jsstring \<rightharpoonup> test_result)) \<times> 'w \<times> runner \<times> jsstring list" where
  "runAll_loop [] w r results sel = (Inr results, w, r, sel)"
| "runAll_loop (testCase # rest) w r results sel =
     (case execute testCase w of
        (Inr result, w') \<Rightarrow>
          runAll_loop rest w' (r\<lparr>selectedTest := Some (tc_id testCase)\<rparr>)
            (results(tc_id testCase \<mapsto> result)) (sel @ [tc_id testCase])
      | (Inl error, w') \<Rightarrow>
          (case to_string error of
             Inr s \<Rightarrow>
               runAll_loop rest w' (r\<lparr>selectedTest := Some (tc_id testCase)\<rparr>)
                 (results(tc_id testCase \<mapsto> failed_result s)) (sel @ [tc_id testCase])
           | Inl e \<Rightarrow>
               (Inl e, w', r\<lparr>selectedTest := Some (tc_id testCase)\<rparr>,
                sel @ [tc_id testCase])))"

text \<open>
  The result of \<open>runAllTests\<close>: the value its promise rejects with, if any, the runner
  state, the world and the ids selected.
\<close>

definition runAllTests ::
  "'w test_case list \<Rightarrow> 'w \<Rightarrow> runner \<Rightarrow> thrown option \<times> runner \<times> 'w \<times> jsstring list" where
  "runAllTests testCases w r =
     (case runAll_loop testCases w (r\<lparr>isRunning := True\<rparr>) Map.empty [] of
        (Inr results, w', r', sel) \<Rightarrow>
          (None, r'\<lparr>testResults := results, isRunning := False, selectedTest := None\<rparr>,
           w', sel)
      | (Inl e, w', r', sel) \<Rightarrow> (Some e, r', w', sel))"

text \<open>
  \<open>runTest\<close>, for one scenario: the result is merged into the stored results. Its
  \<open>catch\<close> block converts the thrown value in the same way; the \<open>finally\<close> block runs
  in every case.
\<close>

definition runTest ::
  "'w test_case \<Rightarrow> 'w \<Rightarrow> runner \<Rightarrow> thrown option \<times> runner \<times> 'w" where
  "runTest testCase w r =
     (case execute testCase w of
        (Inr result, w') \<Rightarrow>
          (None,
           r\<lparr>testResults := (testResults r)(tc_id testCase \<mapsto> result),
             isRunning := False, selectedTest := None\<rparr>, w')
      | (Inl error, w') \<Rightarrow>
          (case to_string error of
             Inr s \<Rightarrow>
               (None,
                r\<lparr>testResults := (testResults r)(tc_id testCase \<mapsto>
                     \<lparr>passed = False, message = lit ''Error ejecutando test: '' @ s,
                      details = None\<rparr>),
                  isRunning := False, selectedTest := None\<rparr>, w')
           | Inl e \<Rightarrow> (Some e, r\<lparr>isRunning := False, selectedTest := None\<rparr>, w')))"

text \<open>
  The world in which the scenario at position \<open>i\<close> starts, and what one iteration makes
  of a scenario: the result to store, or the value that ends the loop.
\<close>

definition world_before :: "'w test_case list \<Rightarrow> 'w \<Rightarrow> nat \<Rightarrow> 'w" where
  "world_before testCases w i = fold (\<lambda>tc w. snd (execute tc w)) (take i testCases) w"

definition recorded :: "'w test_case \<Rightarrow> 'w \<Rightarrow> thrown + test_result" where
  "recorded testCase w =
     (case fst (execute testCase w) of
        Inr result \<Rightarrow> Inr result
      | Inl error \<Rightarrow>
          (case to_string error of Inr s \<Rightarrow> Inr (failed_result s) | Inl e \<Rightarrow> Inl e))"


section \<open>Concrete inputs\<close>

text \<open>The form after typing the data of the test suite's valid submission.\<close>

definition ex_valid :: form_state where
  "ex_valid = \<lparr>formData = \<lparr>title = lit ''Test Task'', description = lit ''Test Description'',
                              priority = lit ''high''\<rparr>,
               errors = (\<lambda>_. None), touched = (\<lambda>_. False)\<rparr>"

text \<open>\<open>initialData = {title: ''}\<close> and the seed of the test suite's edit form.\<close>

definition ex_empty_seed :: "initial_data option" where
  "ex_empty_seed = Some \<lparr>init_title = Some [], init_description = None, init_priority = None\<rparr>"

definition ex_edit_seed :: "initial_data option" where
  "ex_edit_seed = Some \<lparr>init_title = Some (lit ''Test Task''),
                         init_description = Some (lit ''Test Description''),
                         init_priority = Some (lit ''high'')\<rparr>"

text \<open>The two tasks of the runner's list scenario, a clock and a payload.\<close>

definition ex_task1 :: task where
  "ex_task1 = \<lparr>task_id = lit ''test-1'', task_title = lit ''Tarea de Prueba 1'',
               task_description = Some (lit ''Primera''), completed = False,
               task_priority = lit ''high'', createdAt = 1000, updatedAt = 1000\<rparr>"

definition ex_task2 :: task where
  "ex_task2 = \<lparr>task_id = lit ''test-2'', task_title = lit ''Tarea de Prueba 2'',
               task_description = Some (lit ''Segunda''), completed = True,
               task_priority = lit ''low'', createdAt = 1000, updatedAt = 1000\<rparr>"

text \<open>A clock that ticks from 1000 to 1001 after its fifth reading.\<close>

definition ex_clock :: clock where
  "ex_clock n = (if n < 5 then 1000 else 1001)"

definition ex_data :: form_data where
  "ex_data = \<lparr>title = lit ''Test Task'', description = lit ''Test Description'',
               priority = lit ''high''\<rparr>"

text \<open>
  Scenarios on a world that counts the scenarios run: one passes, one throws
  \<open>new Error('boom')\<close>, one throws a Symbol, and one passes when it is the third to run.
\<close>

definition ex_pass :: "nat test_case" where
  "ex_pass = \<lparr>tc_id = lit ''a'', tc_name = lit ''first'', tc_description = [],
              tc_category = FormCategory,
              execute = (\<lambda>w. (Inr \<lparr>passed = True, message = lit ''ok'', details = None\<rparr>, Suc w))\<rparr>"

definition ex_throw :: "nat test_case" where
  "ex_throw = \<lparr>tc_id = lit ''b'', tc_name = lit ''second'', tc_description = [],
               tc_category = ListCategory,
               execute = (\<lambda>w. (Inl (ErrorObject (lit ''Error'') (lit ''boom'')), Suc w))\<rparr>"

definition ex_symbol :: "nat test_case" where
  "ex_symbol = \<lparr>tc_id = lit ''b'', tc_name = lit ''second'', tc_description = [],
                tc_category = ListCategory,
                execute = (\<lambda>w. (Inl thrown_symbol, Suc w))\<rparr>"

definition ex_last :: "nat test_case" where
  "ex_last = \<lparr>tc_id = lit ''c'', tc_name = lit ''third'', tc_description = [],
              tc_category = IntegrationCategory,
              execute = (\<lambda>w. (Inr \<lparr>passed = (w = 2), message = lit ''ran'', details = None\<rparr>,
                              Suc w))\<rparr>"

section \<open>Facts about strings and validation\<close>

lemma length_msgs:
  "length msg_required = 17" "length msg_too_short = 35" "length msg_too_long = 38"
  "length msg_description = 44" "length msg_priority = 30"
  by (simp_all add: msg_required_def msg_too_short_def msg_too_long_def
      msg_description_def msg_priority_def lit_def)

lemma msgs_distinct:
  "msg_required \<noteq> msg_too_short" "msg_required \<noteq> msg_too_long"
  "msg_too_short \<noteq> msg_too_long"
  using length_msgs by fastforce+

lemma msgs_nonempty:
  "msg_required \<noteq> []" "msg_too_short \<noteq> []" "msg_too_long \<noteq> []"
  "msg_description \<noteq> []" "msg_priority \<noteq> []"
  using length_msgs by fastforce+

lemma truthy_validateField: "truthy (validateField f v) = (validateField f v \<noteq> None)"
  by (cases f) (simp_all add: msgs_nonempty)

lemma trim_example: "trim (lit ''  ab  '') = lit ''ab''"
  by (simp add: trim_def lit_def is_ws_def white_space_def)

text \<open>
  \<open>trim\<close> gives the empty string exactly on strings of white space, and a non-empty
  result neither starts nor ends with white space.
\<close>

lemma trim_empty_iff: "(trim s = []) = (\<forall>c \<in> set s. is_ws c)"
proof
  assume "trim s = []"
  then have all: "\<forall>c \<in> set (dropWhile is_ws s). is_ws c"
    by (simp add: trim_def)
  have "dropWhile is_ws s = []"
  proof (cases "dropWhile is_ws s")
    case Nil
    then show ?thesis .
  next
    case (Cons c cs)
    then have "\<not> is_ws c" by (metis hd_dropWhile list.sel(1) list.distinct(1))
    with all Cons show ?thesis by simp
  qed
  then show "\<forall>c \<in> set s. is_ws c" by simp
next
  assume "\<forall>c \<in> set s. is_ws c"
  then have e: "dropWhile is_ws s = []" by simp
  show "trim s = []" unfolding trim_def e by simp
qed

lemma trim_no_outer_space:
  "trim s \<noteq> [] \<Longrightarrow> \<not> is_ws (hd (trim s)) \<and> \<not> is_ws (last (trim s))"
proof -
  assume ne: "trim s \<noteq> []"
  let ?a = "dropWhile is_ws s"
  let ?b = "dropWhile is_ws (rev ?a)"
  from ne have b: "?b \<noteq> []" by (simp add: trim_def)
  then have l: "\<not> is_ws (hd ?b)" by (rule hd_dropWhile)
  have a: "?a \<noteq> []"
  proof
    assume "?a = []"
    then have "?b = []" by (simp only: rev.simps dropWhile.simps)
    with b show False by contradiction
  qed
  then have h: "\<not> is_ws (hd ?a)" by (rule hd_dropWhile)
  have "last (trim s) = hd ?b" using b by (simp add: trim_def last_rev)
  moreover have "hd (trim s) = hd ?a"
  proof -
    from a obtain c cs where c: "?a = c # cs" by (cases ?a) auto
    with h have nc: "\<not> is_ws c" by simp
    have "\<exists>ys. ?b = ys @ [c]"
    proof (cases "\<forall>x \<in> set (rev cs). is_ws x")
      case True
      with nc show ?thesis by (simp add: c dropWhile_append)
    next
      case False
      then obtain x where x: "x \<in> set (rev cs)" "\<not> is_ws x" by blast
      have "dropWhile is_ws (rev cs @ [c]) = dropWhile is_ws (rev cs) @ [c]"
        using x by (rule dropWhile_append1)
      then have "?b = dropWhile is_ws (rev cs) @ [c]" by (simp add: c)
      then show ?thesis by blast
    qed
    then obtain ys where "?b = ys @ [c]" by blast
    then have "trim s = c # rev ys" by (simp add: trim_def)
    with c show ?thesis by simp
  qed
  ultimately show ?thesis using h l by simp
qed

text \<open>The rules of the other two fields.\<close>

lemma validate_description:
  "(validateField Description v \<noteq> None) = (length v > 500)"
  by simp

lemma validate_priority:
  "(validateField Priority v \<noteq> None) = (v \<notin> {lit ''low'', lit ''medium'', lit ''high''})"
  by simp


lemma validate_examples:
  "validateField Title [] = Some msg_required"
  "validateField Title (lit ''ab'') = Some msg_too_short"
  "validateField Title (lit ''Test Task'') = None"
  "validateField Description [] = None"
  "validateField Description (lit ''Test Description'') = None"
  "validateField Priority (lit ''medium'') = None"
  "validateField Priority (lit ''high'') = None"
  by (simp_all add: trim_def lit_def is_ws_def white_space_def)


section \<open>Facts about the form\<close>

lemma field_all: "(\<forall>f. P f) = (P Title \<and> P Description \<and> P Priority)"
  by (metis field.exhaust)

lemma isValid_iff:
  "isValid (validateForm d) = (\<forall>f. validateField f (field_value d f) = None)"
  unfolding validateForm_def Let_def field_all
  by (simp add: truthy_validateField del: validateField.simps)

lemma v_errors_validateForm:
  "v_errors (validateForm d) = (\<lambda>f. validateField f (field_value d f))"
  by (simp add: validateForm_def Let_def)

text \<open>The three ways a submit event can go, each computed in full.\<close>

lemma submit_invalid:
  assumes "\<not> isValid (validateForm (formData s))"
  shows "dispatch p s Submit =
    \<lparr>final = s\<lparr>errors := v_errors (validateForm (formData s)), touched := (\<lambda>_. True)\<rparr>,
     commits = [s\<lparr>errors := v_errors (validateForm (formData s)), touched := (\<lambda>_. True)\<rparr>],
     calls = [], prevented = True\<rparr>"
  using assms by (simp add: dispatch_def handleSubmit_def Let_def)

lemma submit_valid_edit:
  assumes "isValid (validateForm (formData s))" "truthy (init_title (initialData p))"
  shows "dispatch p s Submit =
    \<lparr>final = s\<lparr>errors := v_errors (validateForm (formData s)), touched := (\<lambda>_. True)\<rparr>,
     commits = [s\<lparr>errors := v_errors (validateForm (formData s)), touched := (\<lambda>_. True)\<rparr>],
     calls = [formData s], prevented = True\<rparr>"
  using assms by (simp add: dispatch_def handleSubmit_def Let_def)

lemma submit_valid_create:
  assumes "isValid (validateForm (formData s))" "\<not> truthy (init_title (initialData p))"
  shows "dispatch p s Submit =
    \<lparr>final = \<lparr>formData = default_form_data, errors = (\<lambda>_. None), touched = (\<lambda>_. False)\<rparr>,
     commits = [s\<lparr>errors := v_errors (validateForm (formData s)), touched := (\<lambda>_. True)\<rparr>,
               \<lparr>formData = default_form_data, errors = (\<lambda>_. None), touched = (\<lambda>_. False)\<rparr>],
     calls = [formData s], prevented = True\<rparr>"
  using assms by (simp add: dispatch_def handleSubmit_def Let_def)

lemma ex_valid_ok: "isValid (validateForm (formData ex_valid))"
  by (simp add: isValid_iff field_all ex_valid_def validate_examples del: validateField.simps)

lemma initial_formData_None:
  "formData (initial_state None) = \<lparr>title = [], description = [], priority = lit ''medium''\<rparr>"
  by (simp add: initial_state_def initialData_def no_initial_data_def js_or_def)

lemma initial_invalid: "\<not> isValid (validateForm (formData (initial_state None)))"
  by (simp add: isValid_iff field_all initial_formData_None validate_examples
      del: validateField.simps)

lemma change_untouched:
  "\<not> touched s f \<Longrightarrow> dispatch p s (Change f v) =
     \<lparr>final = s\<lparr>formData := set_field (formData s) f v\<rparr>,
      commits = [s\<lparr>formData := set_field (formData s) f v\<rparr>], calls = [], prevented = False\<rparr>"
  by (simp add: dispatch_def handleInputChange_def)

lemma seeds:
  "init_title (initialData None) = None"
  "init_title (initialData ex_empty_seed) = Some []"
  "init_title (initialData ex_edit_seed) = Some (lit ''Test Task'')"
  by (simp_all add: initialData_def no_initial_data_def ex_empty_seed_def ex_edit_seed_def)

text \<open>
  The error state itself never holds an error for an untouched field: a change event
  revalidates a field only once it is touched.
\<close>

lemma untouched_no_error:
  "reachable p s \<Longrightarrow> \<not> touched s f \<Longrightarrow> errors s f = None"
proof (induction arbitrary: f rule: reachable.induct)
  case reachable_init
  then show ?case by (simp add: initial_state_def)
next
  case (reachable_step s ev)
  show ?case
  proof (cases ev)
    case (Change g v)
    with reachable_step show ?thesis
      by (auto simp add: dispatch_def handleInputChange_def simp del: validateField.simps
          split: if_splits)
  next
    case (Blur g v)
    with reachable_step show ?thesis
      by (auto simp add: dispatch_def handleBlur_def simp del: validateField.simps
          split: if_splits)
  next
    case Submit
    with reachable_step.prems show ?thesis
      by (cases "isValid (validateForm (formData s))";
          cases "truthy (init_title (initialData p))")
         (simp_all add: submit_invalid submit_valid_edit submit_valid_create
            del: validateField.simps)
  qed
qed


section \<open>Facts about the container's operations\<close>

text \<open>
  The heap only grows under \<open>handleToggleComplete\<close>; at each position the result is the
  old reference or a newly allocated toggled copy; read as values, it is the plain map.
\<close>

lemma toggle_heap_grows:
  "handleToggleComplete clk k taskId h rs = (h', rs') \<Longrightarrow>
     (\<exists>ext. h' = h @ ext) \<and> length rs' = length rs"
proof (induction rs arbitrary: k h h' rs')
  case Nil
  then show ?case by simp
next
  case (Cons r rs)
  show ?case
  proof (cases "task_id (h ! r) = taskId")
    case True
    obtain h2 rs2 where rec:
      "handleToggleComplete clk (Suc k) taskId (h @ [toggled clk k (h ! r)]) rs = (h2, rs2)"
      by fastforce
    with Cons.prems True have eq: "h' = h2" "rs' = length h # rs2"
      by (simp_all add: alloc_def)
    from Cons.IH [OF rec] show ?thesis using eq by auto
  next
    case False
    obtain h2 rs2 where rec: "handleToggleComplete clk k taskId h rs = (h2, rs2)"
      by fastforce
    with Cons.prems False have eq: "h' = h2" "rs' = r # rs2" by simp_all
    from Cons.IH [OF rec] show ?thesis using eq by auto
  qed
qed

lemma matches_before_0 [simp]: "matches_before taskId h rs 0 = 0"
  by (simp add: matches_before_def)

lemma matches_before_Suc:
  "matches_before taskId h (r # rs) (Suc i) =
     (if task_id (h ! r) = taskId then Suc (matches_before taskId h rs i)
      else matches_before taskId h rs i)"
  by (simp add: matches_before_def)

lemma matches_before_heap_ext:
  "wf_refs h rs \<Longrightarrow> matches_before taskId (h @ ext) rs i = matches_before taskId h rs i"
proof -
  assume wf: "wf_refs h rs"
  have "filter (\<lambda>r. task_id ((h @ ext) ! r) = taskId) (take i rs)
      = filter (\<lambda>r. task_id (h ! r) = taskId) (take i rs)"
  proof (rule filter_cong [OF refl])
    fix r assume "r \<in> set (take i rs)"
    then have "r \<in> set rs" by (rule in_set_takeD)
    with wf have "r < length h" by (simp add: wf_refs_def list_all_iff)
    then show "(task_id ((h @ ext) ! r) = taskId) = (task_id (h ! r) = taskId)"
      by (simp add: nth_append)
  qed
  then show ?thesis by (simp add: matches_before_def)
qed

lemma wf_refs_ext: "wf_refs h rs \<Longrightarrow> wf_refs (h @ ext) rs"
  by (auto simp add: wf_refs_def list_all_iff)

lemma toggle_at:
  "wf_refs h rs \<Longrightarrow> handleToggleComplete clk k taskId h rs = (h', rs') \<Longrightarrow> i < length rs \<Longrightarrow>
     (if task_id (h ! (rs ! i)) = taskId
      then length h \<le> rs' ! i \<and> rs' ! i < length h'
           \<and> h' ! (rs' ! i) = toggled clk (k + matches_before taskId h rs i) (h ! (rs ! i))
      else rs' ! i = rs ! i)"
proof (induction rs arbitrary: k h h' rs' i)
  case Nil
  then show ?case by simp
next
  case (Cons r rs)
  from Cons.prems(1) have r: "r < length h" and wf: "wf_refs h rs"
    by (simp_all add: wf_refs_def)
  show ?case
  proof (cases "task_id (h ! r) = taskId")
    case True
    let ?h1 = "h @ [toggled clk k (h ! r)]"
    obtain h2 rs2 where rec: "handleToggleComplete clk (Suc k) taskId ?h1 rs = (h2, rs2)"
      by fastforce
    with Cons.prems(2) True have eq: "h' = h2" "rs' = length h # rs2"
      by (simp_all add: alloc_def)
    from toggle_heap_grows [OF rec] obtain ext where ext: "h2 = ?h1 @ ext" by blast
    show ?thesis
    proof (cases i)
      case 0
      with True eq ext show ?thesis by (simp add: nth_append)
    next
      case (Suc j)
      with Cons.prems(3) have j: "j < length rs" by simp
      then have "rs ! j \<in> set rs" by simp
      with wf have rj: "rs ! j < length h" by (simp add: wf_refs_def list_all_iff)
      note ih = Cons.IH [OF wf_refs_ext [OF wf] rec j]
      have ih': "if task_id (h ! (rs ! j)) = taskId
          then length h < rs2 ! j \<and> rs2 ! j < length h2
               \<and> h2 ! (rs2 ! j) = toggled clk (Suc k + matches_before taskId h rs j) (h ! (rs ! j))
          else rs2 ! j = rs ! j"
        using ih rj
        by (auto simp add: nth_append matches_before_heap_ext [OF wf] split: if_splits)
      show ?thesis
        using ih' True eq Suc
        by (auto simp add: matches_before_Suc split: if_splits)
    qed
  next
    case False
    obtain h2 rs2 where rec: "handleToggleComplete clk k taskId h rs = (h2, rs2)"
      by fastforce
    with Cons.prems(2) False have eq: "h' = h2" "rs' = r # rs2" by simp_all
    show ?thesis
    proof (cases i)
      case 0
      with False eq show ?thesis by simp
    next
      case (Suc j)
      with Cons.prems(3) have j: "j < length rs" by simp
      note ih = Cons.IH [OF wf rec j]
      show ?thesis
        using ih False eq Suc by (auto simp add: matches_before_Suc split: if_splits)
    qed
  qed
qed

lemma toggle_values_refines:
  "wf_refs h rs \<Longrightarrow> handleToggleComplete clk k taskId h rs = (h', rs') \<Longrightarrow>
     tasks_of h' rs' = toggle_values clk k taskId (tasks_of h rs)"
proof (induction rs arbitrary: k h h' rs')
  case Nil
  then show ?case by (simp add: tasks_of_def)
next
  case (Cons r rs)
  from Cons.prems(1) have r: "r < length h" and wf: "wf_refs h rs"
    by (simp_all add: wf_refs_def)
  have same: "tasks_of (h @ ext) rs = tasks_of h rs" for ext
    using wf by (auto simp add: tasks_of_def wf_refs_def list_all_iff nth_append)
  show ?case
  proof (cases "task_id (h ! r) = taskId")
    case True
    let ?h1 = "h @ [toggled clk k (h ! r)]"
    obtain h2 rs2 where rec: "handleToggleComplete clk (Suc k) taskId ?h1 rs = (h2, rs2)"
      by fastforce
    with Cons.prems(2) True have eq: "h' = h2" "rs' = length h # rs2"
      by (simp_all add: alloc_def)
    from toggle_heap_grows [OF rec] obtain ext where ext: "h2 = ?h1 @ ext" by blast
    from Cons.IH [OF wf_refs_ext [OF wf] rec]
    have "tasks_of h2 rs2 = toggle_values clk (Suc k) taskId (tasks_of h rs)"
      by (simp add: same)
    with True eq ext show ?thesis by (simp add: tasks_of_def nth_append)
  next
    case False
    obtain h2 rs2 where rec: "handleToggleComplete clk k taskId h rs = (h2, rs2)"
      by fastforce
    with Cons.prems(2) False have eq: "h' = h2" "rs' = r # rs2" by simp_all
    from toggle_heap_grows [OF rec] obtain ext where ext: "h2 = h @ ext" by blast
    from Cons.IH [OF wf rec] have "tasks_of h2 rs2 = toggle_values clk k taskId (tasks_of h rs)" .
    with False eq ext r show ?thesis by (simp add: tasks_of_def nth_append)
  qed
qed

lemma ex_ids: "task_id ex_task1 = lit ''test-1''" "task_id ex_task2 = lit ''test-2''"
  "lit ''test-2'' \<noteq> lit ''test-1''" "lit ''test-1'' \<noteq> lit ''test-2''"
  "lit ''test-3'' \<noteq> lit ''test-1''" "lit ''test-3'' \<noteq> lit ''test-2''"
  by (simp_all add: ex_task1_def ex_task2_def lit_def)

lemma ex_toggle:
  "handleToggleComplete (\<lambda>_. 2000) 0 (lit ''test-1'') [ex_task1, ex_task2] [0, 1]
     = ([ex_task1, ex_task2, ex_task1\<lparr>completed := True, updatedAt := 2000\<rparr>], [2, 1])"
  by (simp add: alloc_def toggled_def ex_ids) (simp add: ex_task1_def)

lemma decimal_digit: "n < 10 \<Longrightarrow> decimal n = [of_nat (48 + n)]"
  by (simp add: decimal.simps)

lemma decimal_step:
  "10 \<le> n \<Longrightarrow> decimal n = decimal (n div 10) @ [of_nat (48 + n mod 10)]"
  by (subst decimal.simps) simp

text \<open>
  The decimal text determines the number, so two created tasks have the same id exactly
  when their \<open>Date.now()\<close> readings are the same.
\<close>

lemma unat_digit: "d < 10 \<Longrightarrow> unat (of_nat (48 + d) :: jschar) = 48 + d"
  by (simp add: unat_of_nat del: of_nat_add)

lemma undecimal_decimal: "undecimal (decimal n) = n"
proof (induction n rule: decimal.induct)
  case (1 n)
  show ?case
  proof (cases "n < 10")
    case True
    then show ?thesis
      by (simp add: decimal_digit undecimal_def unat_digit del: of_nat_add)
  next
    case False
    then have ih: "undecimal (decimal (n div 10)) = n div 10" using 1 by simp
    have d: "n mod 10 < 10" by simp
    from False have "undecimal (decimal n)
        = 10 * undecimal (decimal (n div 10)) + (unat (of_nat (48 + n mod 10) :: jschar) - 48)"
      by (simp add: decimal_step undecimal_def del: of_nat_add)
    also have "\<dots> = 10 * (n div 10) + n mod 10"
      by (simp add: ih unat_digit [OF d] del: of_nat_add)
    finally show ?thesis by simp
  qed
qed

lemma decimal_inj: "decimal m = decimal n \<Longrightarrow> m = n"
  by (metis undecimal_decimal)

lemma newTask_id_eq_iff:
  "(task_id (newTask clk k d) = task_id (newTask clk' k' d')) = (clk k = clk' k')"
  by (auto simp add: newTask_def dest: decimal_inj)

lemma decimal_1000: "decimal 1000 = lit ''1000''"
  by (simp add: decimal_step decimal_digit lit_def)

text \<open>What \<open>handleCreateTask\<close> does establish, for any clock.\<close>

lemma handleCreateTask_fields:
  "fst (handleCreateTask clk k taskData prevTasks) = newTask clk k taskData # prevTasks"
  "completed (newTask clk k taskData) = False"
  "task_title (newTask clk k taskData) = title taskData"
  "task_description (newTask clk k taskData) = Some (description taskData)"
  "task_priority (newTask clk k taskData) = priority taskData"
  "task_id (newTask clk k taskData) = lit ''task-'' @ decimal (clk k)"
  "createdAt (newTask clk k taskData) = clk (k + 1)"
  "updatedAt (newTask clk k taskData) = clk (k + 2)"
  by (simp_all add: handleCreateTask_def newTask_def)


section \<open>Facts about the test runner\<close>

text \<open>
  One iteration of the loop in terms of what it records, and the two ways the loop ends.
\<close>

lemma loop_step:
  "runAll_loop (tc # rest) w r results sel =
     (case recorded tc w of
        Inr res \<Rightarrow>
          runAll_loop rest (snd (execute tc w)) (r\<lparr>selectedTest := Some (tc_id tc)\<rparr>)
            (results(tc_id tc \<mapsto> res)) (sel @ [tc_id tc])
      | Inl e \<Rightarrow>
          (Inl e, snd (execute tc w), r\<lparr>selectedTest := Some (tc_id tc)\<rparr>, sel @ [tc_id tc]))"
  by (cases "execute tc w"; cases "fst (execute tc w)")
     (auto simp add: recorded_def split: sum.splits)

lemma world_before_0 [simp]: "world_before tcs w 0 = w"
  by (simp add: world_before_def)

lemma world_before_Suc:
  "world_before (tc # tcs) w (Suc i) = world_before tcs (snd (execute tc w)) i"
  by (simp add: world_before_def)

text \<open>When every iteration stores a result, the loop runs to its end.\<close>

lemma loop_completes:
  "\<forall>i < length tcs. \<exists>res. recorded (tcs ! i) (world_before tcs w i) = Inr res \<Longrightarrow>
   \<exists>res. runAll_loop tcs w r results sel
            = (Inr res, world_before tcs w (length tcs),
               r\<lparr>selectedTest := (if tcs = [] then selectedTest r else Some (tc_id (last tcs)))\<rparr>,
               sel @ map tc_id tcs)
     \<and> (\<forall>k. k \<notin> set (map tc_id tcs) \<longrightarrow> res k = results k)
     \<and> (distinct (map tc_id tcs) \<longrightarrow>
          (\<forall>i < length tcs.
             Inr (the (res (tc_id (tcs ! i)))) = recorded (tcs ! i) (world_before tcs w i)
             \<and> res (tc_id (tcs ! i)) \<noteq> None))"
proof (induction tcs arbitrary: w r results sel)
  case Nil
  then show ?case by simp
next
  case (Cons tc tcs)
  let ?w1 = "snd (execute tc w)"
  let ?r1 = "r\<lparr>selectedTest := Some (tc_id tc)\<rparr>"
  from Cons.prems have "\<exists>res. recorded ((tc # tcs) ! 0) (world_before (tc # tcs) w 0) = Inr res"
    by blast
  then obtain res0 where res0: "recorded tc w = Inr res0" by auto
  have rest: "\<forall>i < length tcs. \<exists>res. recorded (tcs ! i) (world_before tcs ?w1 i) = Inr res"
  proof (intro allI impI)
    fix i assume "i < length tcs"
    then have "Suc i < length (tc # tcs)" by simp
    with Cons.prems
    have "\<exists>res. recorded ((tc # tcs) ! Suc i) (world_before (tc # tcs) w (Suc i)) = Inr res"
      by blast
    then show "\<exists>res. recorded (tcs ! i) (world_before tcs ?w1 i) = Inr res"
      by (simp add: world_before_Suc)
  qed
  from Cons.IH [OF rest, of ?r1 "results(tc_id tc \<mapsto> res0)" "sel @ [tc_id tc]"]
  obtain res where run: "runAll_loop tcs ?w1 ?r1 (results(tc_id tc \<mapsto> res0)) (sel @ [tc_id tc])
            = (Inr res, world_before tcs ?w1 (length tcs),
               ?r1\<lparr>selectedTest := (if tcs = [] then selectedTest ?r1 else Some (tc_id (last tcs)))\<rparr>,
               (sel @ [tc_id tc]) @ map tc_id tcs)"
    and frame: "\<forall>k. k \<notin> set (map tc_id tcs) \<longrightarrow> res k = (results(tc_id tc \<mapsto> res0)) k"
    and at: "distinct (map tc_id tcs) \<longrightarrow>
          (\<forall>i < length tcs.
             Inr (the (res (tc_id (tcs ! i)))) = recorded (tcs ! i) (world_before tcs ?w1 i)
             \<and> res (tc_id (tcs ! i)) \<noteq> None)"
    by blast
  have eq: "runAll_loop (tc # tcs) w r results sel
            = (Inr res, world_before (tc # tcs) w (length (tc # tcs)),
               r\<lparr>selectedTest := (if tc # tcs = [] then selectedTest r
                                    else Some (tc_id (last (tc # tcs))))\<rparr>,
               sel @ map tc_id (tc # tcs))"
    by (simp add: loop_step res0 run world_before_Suc del: runAll_loop.simps)
  have frame': "\<forall>k. k \<notin> set (map tc_id (tc # tcs)) \<longrightarrow> res k = results k"
    using frame by simp
  have at': "Inr (the (res (tc_id ((tc # tcs) ! i))))
               = recorded ((tc # tcs) ! i) (world_before (tc # tcs) w i)
             \<and> res (tc_id ((tc # tcs) ! i)) \<noteq> None"
    if d: "distinct (map tc_id (tc # tcs))" and i: "i < length (tc # tcs)" for i
  proof (cases i)
    case 0
    from d have "tc_id tc \<notin> set (map tc_id tcs)" by simp
    with frame have "res (tc_id tc) = Some res0" by simp
    with 0 res0 show ?thesis by simp
  next
    case (Suc j)
    with i have j: "j < length tcs" by simp
    from d have "distinct (map tc_id tcs)" by simp
    with at j show ?thesis by (simp add: Suc world_before_Suc)
  qed
  from eq frame' at' show ?case by blast
qed

text \<open>The loop ends at the first scenario whose thrown value does not convert.\<close>

lemma loop_aborts:
  "j < length tcs \<Longrightarrow> recorded (tcs ! j) (world_before tcs w j) = Inl e \<Longrightarrow>
   \<forall>i < j. \<exists>res. recorded (tcs ! i) (world_before tcs w i) = Inr res \<Longrightarrow>
   runAll_loop tcs w r results sel
     = (Inl e, world_before tcs w (Suc j), r\<lparr>selectedTest := Some (tc_id (tcs ! j))\<rparr>,
        sel @ map tc_id (take (Suc j) tcs))"
proof (induction tcs arbitrary: j w r results sel)
  case Nil
  then show ?case by simp
next
  case (Cons tc tcs)
  let ?w1 = "snd (execute tc w)"
  let ?r1 = "r\<lparr>selectedTest := Some (tc_id tc)\<rparr>"
  show ?case
  proof (cases j)
    case 0
    with Cons.prems(2) have "recorded tc w = Inl e" by simp
    with 0 show ?thesis by (simp add: loop_step world_before_Suc del: runAll_loop.simps)
  next
    case (Suc k)
    with Cons.prems(1) have k: "k < length tcs" by simp
    from Cons.prems(3) Suc
    have "\<exists>res. recorded ((tc # tcs) ! 0) (world_before (tc # tcs) w 0) = Inr res"
      by blast
    then obtain res0 where res0: "recorded tc w = Inr res0" by auto
    from Cons.prems(2) Suc have ab: "recorded (tcs ! k) (world_before tcs ?w1 k) = Inl e"
      by (simp add: world_before_Suc)
    have before: "\<forall>i < k. \<exists>res. recorded (tcs ! i) (world_before tcs ?w1 i) = Inr res"
    proof (intro allI impI)
      fix i assume "i < k"
      then have "Suc i < j" using Suc by simp
      with Cons.prems(3)
      have "\<exists>res. recorded ((tc # tcs) ! Suc i) (world_before (tc # tcs) w (Suc i)) = Inr res"
        by blast
      then show "\<exists>res. recorded (tcs ! i) (world_before tcs ?w1 i) = Inr res"
        by (simp add: world_before_Suc)
    qed
    note ih = Cons.IH [OF k ab before, of ?r1 "results(tc_id tc \<mapsto> res0)" "sel @ [tc_id tc]"]
    show ?thesis
      by (simp add: loop_step res0 Suc world_before_Suc ih del: runAll_loop.simps)
  qed
qed


lemma recorded_Inr_iff:
  "(\<exists>res. recorded tc w = Inr res)
     = (\<forall>error. fst (execute tc w) = Inl error \<longrightarrow> (\<exists>s. to_string error = Inr s))"
  by (cases "fst (execute tc w)") (auto simp add: recorded_def split: sum.splits)

text \<open>
  When every thrown value converts to a string, a run over scenarios with distinct ids
  goes through all of them in order, and each has its own result stored.
\<close>

lemma runAll_isolated_when_convertible:
  assumes "distinct (map tc_id testCases)" and "i < length testCases"
    and "\<forall>j < length testCases. \<forall>error.
           fst (execute (testCases ! j) (world_before testCases w j)) = Inl error \<longrightarrow>
           (\<exists>s. to_string error = Inr s)"
  shows "\<exists>r'. runAllTests testCases w r
            = (None, r', world_before testCases w (length testCases), map tc_id testCases)
       \<and> \<not> isRunning r' \<and> selectedTest r' = None
       \<and> testResults r' (tc_id (testCases ! i)) \<noteq> None
       \<and> Inr (the (testResults r' (tc_id (testCases ! i))))
           = recorded (testCases ! i) (world_before testCases w i)
       \<and> dom (testResults r') = set (map tc_id testCases)"
proof -
  from assms(3)
  have all: "\<forall>j < length testCases. \<exists>res.
      recorded (testCases ! j) (world_before testCases w j) = Inr res"
    by (simp add: recorded_Inr_iff)
  from loop_completes [OF all, of "r\<lparr>isRunning := True\<rparr>" Map.empty "[]"]
  obtain res where run: "runAll_loop testCases w (r\<lparr>isRunning := True\<rparr>) Map.empty []
            = (Inr res, world_before testCases w (length testCases),
               r\<lparr>isRunning := True\<rparr>\<lparr>selectedTest :=
                  (if testCases = [] then selectedTest (r\<lparr>isRunning := True\<rparr>)
                   else Some (tc_id (last testCases)))\<rparr>,
               [] @ map tc_id testCases)"
    and frame: "\<forall>k. k \<notin> set (map tc_id testCases) \<longrightarrow> res k = None"
    and at: "\<forall>j < length testCases.
             Inr (the (res (tc_id (testCases ! j))))
               = recorded (testCases ! j) (world_before testCases w j)
             \<and> res (tc_id (testCases ! j)) \<noteq> None"
    using assms(1) by auto
  have dom: "dom res = set (map tc_id testCases)"
  proof (rule set_eqI)
    fix k
    show "(k \<in> dom res) = (k \<in> set (map tc_id testCases))"
    proof (cases "k \<in> set (map tc_id testCases)")
      case True
      then obtain j where "j < length testCases" "k = tc_id (testCases ! j)"
        by (auto simp add: in_set_conv_nth)
      with at have "res k \<noteq> None" by blast
      with True show ?thesis by auto
    next
      case False
      with frame have "res k = None" by blast
      with False show ?thesis by auto
    qed
  qed
  from at assms(2) have ati: "res (tc_id (testCases ! i)) \<noteq> None"
    "Inr (the (res (tc_id (testCases ! i))))
       = recorded (testCases ! i) (world_before testCases w i)"
    by simp_all
  show ?thesis
    using ati dom by (simp add: runAllTests_def run)
qed

text \<open>
  When the thrown value of the scenario at position \<open>j\<close> does not convert, and those
  before it left results, the run ends there: \<open>runAllTests\<close> rejects with what the
  conversion threw, the stored results are the ones from before the run, the runner stays
  running with that scenario selected, and no later scenario is selected or run.
\<close>

lemma runAll_aborts_at:
  assumes "j < length testCases"
    and "fst (execute (testCases ! j) (world_before testCases w j)) = Inl error"
    and "to_string error = Inl e"
    and "\<forall>i < j. \<forall>error.
           fst (execute (testCases ! i) (world_before testCases w i)) = Inl error \<longrightarrow>
           (\<exists>s. to_string error = Inr s)"
  shows "runAllTests testCases w r
           = (Some e, r\<lparr>isRunning := True, selectedTest := Some (tc_id (testCases ! j))\<rparr>,
              world_before testCases w (Suc j), map tc_id (take (Suc j) testCases))"
proof -
  from assms(2,3) have ab: "recorded (testCases ! j) (world_before testCases w j) = Inl e"
    by (simp add: recorded_def)
  from assms(4) have before: "\<forall>i < j. \<exists>res.
      recorded (testCases ! i) (world_before testCases w i) = Inr res"
    by (simp add: recorded_Inr_iff)
  show ?thesis
    by (simp add: runAllTests_def loop_aborts [OF assms(1) ab before])
qed

lemma suffix_error_message:
  "to_string error = Inr s \<Longrightarrow> suffix (error_message error) (message (failed_result s))"
proof (cases error)
  case (ErrorObject name msg)
  assume "to_string error = Inr s"
  with ErrorObject have s: "s = (if name = [] then msg else if msg = [] then name
                                  else name @ lit '': '' @ msg)" by simp
  have "suffix msg (lit ''Error: '' @ name @ lit '': '' @ msg)"
    by (metis suffix_appendI suffix_order.order_refl)
  moreover have "suffix msg (lit ''Error: '' @ msg)"
    by (simp add: suffix_appendI)
  ultimately show ?thesis using ErrorObject s
    by (simp add: failed_result_def suffix_def)
next
  case (OtherValue v)
  assume "to_string error = Inr s"
  with OtherValue show ?thesis by (simp add: failed_result_def suffix_appendI)
next
  case (Unconvertible e)
  assume "to_string error = Inr s"
  with Unconvertible show ?thesis by simp
qed

lemma runTest_catches:
  "fst (execute testCase w) = Inl error \<Longrightarrow> to_string error = Inr s \<Longrightarrow>
     testResults (fst (snd (runTest testCase w r))) (tc_id testCase)
       = Some \<lparr>passed = False, message = lit ''Error ejecutando test: '' @ s, details = None\<rparr>"
  by (cases "execute testCase w") (simp add: runTest_def)

lemma runTest_rethrows:
  "fst (execute testCase w) = Inl error \<Longrightarrow> to_string error = Inl e \<Longrightarrow>
     runTest testCase w r
       = (Some e, r\<lparr>isRunning := False, selectedTest := None\<rparr>, snd (execute testCase w))"
  by (cases "execute testCase w") (simp add: runTest_def)

lemma ex_tcs_ids:
  "tc_id ex_pass = lit ''a''" "tc_id ex_throw = lit ''b''" "tc_id ex_last = lit ''c''"
  "tc_id ex_symbol = lit ''b''"
  "distinct [lit ''a'', lit ''b'', lit ''c'']"
  by (simp_all add: ex_pass_def ex_throw_def ex_last_def ex_symbol_def lit_def)

text \<open>With an \<open>Error\<close> thrown by the second scenario, the third still runs and is recorded.\<close>

lemma ex_run_all_error_object:
  "runAllTests [ex_pass, ex_throw, ex_last] 0
      \<lparr>testResults = Map.empty, isRunning = False, selectedTest = None\<rparr>
    = (None,
       \<lparr>testResults =
          [lit ''a'' \<mapsto> \<lparr>passed = True, message = lit ''ok'', details = None\<rparr>,
           lit ''b'' \<mapsto> \<lparr>passed = False, message = lit ''Error: Error: boom'', details = None\<rparr>,
           lit ''c'' \<mapsto> \<lparr>passed = True, message = lit ''ran'', details = None\<rparr>],
        isRunning = False, selectedTest = None\<rparr>,
       3, [lit ''a'', lit ''b'', lit ''c''])"
  by (simp add: runAllTests_def ex_pass_def ex_throw_def ex_last_def failed_result_def)
     (simp add: lit_def)

section \<open>The specification's properties\<close>

text \<open>
  C1. For every title string, validation of the title yields the "required" message
  exactly when the trimmed value is empty, the "too short" message exactly when the
  trimmed value is non-empty and shorter than 3, the "too long" message exactly when the
  trimmed value is longer than 100, and no error exactly in the remaining case. The rules
  are tried in this order and the result is the first failing rule's message, so at most
  one of the three messages is reported for any input.
\<close>

theorem C1_title_validation:
  "validateField Title t =
     (if trim t = [] then Some msg_required
      else if length (trim t) < 3 then Some msg_too_short
      else if length (trim t) > 100 then Some msg_too_long
      else None)
   \<and> (validateField Title t = Some msg_required) = (trim t = [])
   \<and> (validateField Title t = Some msg_too_short) = (trim t \<noteq> [] \<and> length (trim t) < 3)
   \<and> (validateField Title t = Some msg_too_long) = (length (trim t) > 100)
   \<and> (validateField Title t = None) = (3 \<le> length (trim t) \<and> length (trim t) \<le> 100)
   \<and> msg_required \<noteq> msg_too_short \<and> msg_required \<noteq> msg_too_long
   \<and> msg_too_short \<noteq> msg_too_long"
  using msgs_distinct by auto


text \<open>
  C2. On a submit event in any form state: if one of the three fields fails validation,
  \<open>onSubmit\<close> is not called, and the error state holds the validation errors, which are
  all rendered; if all three fields pass, \<open>onSubmit\<close> is called exactly once, with
  exactly the current field values.
\<close>

theorem C2_submit_protocol:
  "((\<exists>f. validateField f (field_value (formData s) f) \<noteq> None) \<longrightarrow>
      calls (dispatch p s Submit) = [] \<and>
      errors (final (dispatch p s Submit)) = (\<lambda>f. validateField f (field_value (formData s) f)) \<and>
      (\<forall>f. rendered_error (final (dispatch p s Submit)) f
             = validateField f (field_value (formData s) f)))
   \<and> ((\<forall>f. validateField f (field_value (formData s) f) = None) \<longrightarrow>
      calls (dispatch p s Submit) = [formData s])"
proof (cases "isValid (validateForm (formData s))")
  case True
  then have all: "\<forall>f. validateField f (field_value (formData s) f) = None"
    by (simp add: isValid_iff)
  have "calls (dispatch p s Submit) = [formData s]"
    using True by (cases "truthy (init_title (initialData p))")
      (simp_all add: submit_valid_edit submit_valid_create)
  with all show ?thesis by simp
next
  case False
  then have ex: "\<exists>f. validateField f (field_value (formData s) f) \<noteq> None"
    by (simp add: isValid_iff)
  show ?thesis
    using ex by (simp add: submit_invalid [OF False] v_errors_validateForm rendered_error_def
        truthy_validateField del: validateField.simps)
qed

theorem C2_submit_protocol_witness:
  "(\<exists>f. validateField f (field_value (formData (initial_state None)) f) \<noteq> None)
   \<and> calls (dispatch None (initial_state None) Submit) = []
   \<and> errors (final (dispatch None (initial_state None) Submit)) Title = Some msg_required
   \<and> rendered_error (final (dispatch None (initial_state None) Submit)) Title = Some msg_required
   \<and> (\<forall>f. validateField f (field_value (formData ex_valid) f) = None)
   \<and> calls (dispatch None ex_valid Submit)
       = [\<lparr>title = lit ''Test Task'', description = lit ''Test Description'',
            priority = lit ''high''\<rparr>]"
proof -
  have inv: "\<exists>f. validateField f (field_value (formData (initial_state None)) f) \<noteq> None"
    using initial_invalid by (simp add: isValid_iff)
  have val: "\<forall>f. validateField f (field_value (formData ex_valid) f) = None"
    using ex_valid_ok by (simp add: isValid_iff)
  have t: "field_value (formData (initial_state None)) Title = []"
    by (simp add: initial_formData_None)
  from C2_submit_protocol [of "initial_state None" None] inv
  have a: "calls (dispatch None (initial_state None) Submit) = []"
    and b: "errors (final (dispatch None (initial_state None) Submit)) Title
            = validateField Title (field_value (formData (initial_state None)) Title)"
    and c: "rendered_error (final (dispatch None (initial_state None) Submit)) Title
            = validateField Title (field_value (formData (initial_state None)) Title)"
    by simp_all
  from C2_submit_protocol [of ex_valid None] val
  have d: "calls (dispatch None ex_valid Submit) = [formData ex_valid]" by blast
  show ?thesis
    using inv val a b c d unfolding t
    by (simp add: validate_examples ex_valid_def del: validateField.simps)
qed


text \<open>
  C3. After a submit event with invalid data, exactly one state is committed: it is the
  state the event leaves, it has all three fields touched and holds the full new error
  mapping, and the field values are the ones submitted. The touched flags and the errors
  are set in one \<open>flushSync\<close> block, so no committed state has only one of the two.
\<close>

theorem C3_submit_atomic:
  assumes "\<exists>f. validateField f (field_value (formData s) f) \<noteq> None"
  shows "commits (dispatch p s Submit) = [final (dispatch p s Submit)]
       \<and> (\<forall>f. touched (final (dispatch p s Submit)) f)
       \<and> errors (final (dispatch p s Submit)) = (\<lambda>f. validateField f (field_value (formData s) f))
       \<and> formData (final (dispatch p s Submit)) = formData s"
proof -
  from assms have "\<not> isValid (validateForm (formData s))"
    by (simp add: isValid_iff)
  then show ?thesis
    by (simp add: submit_invalid v_errors_validateForm del: validateField.simps)
qed

theorem C3_submit_atomic_witness:
  "(\<exists>f. validateField f (field_value (formData (initial_state None)) f) \<noteq> None)
   \<and> commits (dispatch None (initial_state None) Submit)
       = [\<lparr>formData = \<lparr>title = [], description = [], priority = lit ''medium''\<rparr>,
           errors = (\<lambda>f. validateField f
                      (field_value \<lparr>title = [], description = [], priority = lit ''medium''\<rparr> f)),
           touched = (\<lambda>_. True)\<rparr>]
   \<and> errors (final (dispatch None (initial_state None) Submit)) Title = Some msg_required"
proof -
  have inv: "\<exists>f. validateField f (field_value (formData (initial_state None)) f) \<noteq> None"
    using initial_invalid by (simp add: isValid_iff)
  note r = C3_submit_atomic [OF inv, of None]
  have e: "errors (final (dispatch None (initial_state None) Submit)) Title = Some msg_required"
    using r by (simp add: initial_formData_None validate_examples del: validateField.simps)
  have "final (dispatch None (initial_state None) Submit)
     = \<lparr>formData = \<lparr>title = [], description = [], priority = lit ''medium''\<rparr>,
           errors = (\<lambda>f. validateField f
                      (field_value \<lparr>title = [], description = [], priority = lit ''medium''\<rparr> f)),
           touched = (\<lambda>_. True)\<rparr>"
    using r by (intro form_state.equality)
      (auto simp add: initial_formData_None simp del: validateField.simps)
  with r inv e show ?thesis by simp
qed


text \<open>
  C4. In every observable form state, reachable or committed while an event is handled,
  no error is rendered for a field whose touched flag is false, whatever the field's value.
\<close>

theorem C4_touched_gate:
  assumes "observable p s" "\<not> touched s f"
  shows "rendered_error s f = None"
  using assms(2) by (simp add: rendered_error_def)

theorem C4_touched_gate_witness:
  "observable None (final (dispatch None (initial_state None) (Change Title (lit ''ab''))))
   \<and> \<not> touched (final (dispatch None (initial_state None) (Change Title (lit ''ab'')))) Title
   \<and> validateField Title
        (title (formData (final (dispatch None (initial_state None) (Change Title (lit ''ab''))))))
       = Some msg_too_short
   \<and> rendered_error (final (dispatch None (initial_state None) (Change Title (lit ''ab'')))) Title
       = None"
proof -
  let ?s = "final (dispatch None (initial_state None) (Change Title (lit ''ab'')))"
  have o: "observable None ?s"
    by (intro observable_reachable reachable_step reachable_init)
  have u: "\<not> touched (initial_state None) Title" by (simp add: initial_state_def)
  have t: "\<not> touched ?s Title"
    by (simp add: change_untouched [OF u]) (simp add: initial_state_def)
  have v: "validateField Title (title (formData ?s)) = Some msg_too_short"
    by (simp add: change_untouched [OF u] validate_examples del: validateField.simps)
  from C4_touched_gate [OF o t] o t v show ?thesis by simp
qed


text \<open>
  C5, as amended. After a successful submit (all fields valid), \<open>onSubmit\<close> has been
  called once with the field values, and: if the seed title is absent or the empty string,
  the field values are reset to the defaults (title and description empty, priority
  medium), the touched flags are cleared and the errors are cleared; if a non-empty seed
  title was supplied, the reset step changes nothing: the state left is the one committed
  by the flush, with the field values as submitted.
\<close>

theorem C5_reset_after_submit:
  assumes "\<forall>f. validateField f (field_value (formData s) f) = None"
  shows "calls (dispatch p s Submit) = [formData s]
     \<and> ((init_title (initialData p) = None \<or> init_title (initialData p) = Some []) \<longrightarrow>
          formData (final (dispatch p s Submit))
            = \<lparr>title = [], description = [], priority = lit ''medium''\<rparr>
          \<and> (\<forall>f. \<not> touched (final (dispatch p s Submit)) f)
          \<and> (\<forall>f. errors (final (dispatch p s Submit)) f = None))
     \<and> ((\<exists>t. init_title (initialData p) = Some t \<and> t \<noteq> []) \<longrightarrow>
          final (dispatch p s Submit) = hd (commits (dispatch p s Submit))
          \<and> commits (dispatch p s Submit)
              = [s\<lparr>errors := (\<lambda>f. validateField f (field_value (formData s) f)),
                   touched := (\<lambda>_. True)\<rparr>])"
proof -
  from assms have v: "isValid (validateForm (formData s))" by (simp add: isValid_iff)
  show ?thesis
  proof (cases "truthy (init_title (initialData p))")
    case True
    then have "\<exists>t. init_title (initialData p) = Some t \<and> t \<noteq> []"
      by (cases "init_title (initialData p)") simp_all
    then show ?thesis
      by (auto simp add: submit_valid_edit [OF v True] v_errors_validateForm
          simp del: validateField.simps)
  next
    case False
    then have "init_title (initialData p) = None \<or> init_title (initialData p) = Some []"
      by (cases "init_title (initialData p)") simp_all
    then show ?thesis
      by (auto simp add: submit_valid_create [OF v False] default_form_data_def)
  qed
qed

theorem C5_reset_after_submit_witness:
  "(\<forall>f. validateField f (field_value (formData ex_valid) f) = None)
   \<and> init_title (initialData None) = None
   \<and> formData (final (dispatch None ex_valid Submit))
       = \<lparr>title = [], description = [], priority = lit ''medium''\<rparr>
   \<and> \<not> touched (final (dispatch None ex_valid Submit)) Title
   \<and> errors (final (dispatch None ex_valid Submit)) Title = None
   \<and> init_title (initialData ex_edit_seed) = Some (lit ''Test Task'')
   \<and> lit ''Test Task'' \<noteq> []
   \<and> formData (final (dispatch ex_edit_seed ex_valid Submit)) = formData ex_valid
   \<and> touched (final (dispatch ex_edit_seed ex_valid Submit)) Title"
proof -
  have val: "\<forall>f. validateField f (field_value (formData ex_valid) f) = None"
    using ex_valid_ok by (simp add: isValid_iff)
  have ne: "lit ''Test Task'' \<noteq> []" by (simp add: lit_def)
  have a: "formData (final (dispatch None ex_valid Submit))
       = \<lparr>title = [], description = [], priority = lit ''medium''\<rparr>
      \<and> \<not> touched (final (dispatch None ex_valid Submit)) Title
      \<and> errors (final (dispatch None ex_valid Submit)) Title = None"
    using C5_reset_after_submit [OF val, of None] by (simp add: seeds)
  have b: "final (dispatch ex_edit_seed ex_valid Submit)
            = hd (commits (dispatch ex_edit_seed ex_valid Submit))
         \<and> commits (dispatch ex_edit_seed ex_valid Submit)
              = [ex_valid\<lparr>errors := (\<lambda>f. validateField f (field_value (formData ex_valid) f)),
                   touched := (\<lambda>_. True)\<rparr>]"
    using C5_reset_after_submit [OF val, of ex_edit_seed] ne by (simp add: seeds)
  then have c: "formData (final (dispatch ex_edit_seed ex_valid Submit)) = formData ex_valid
      \<and> touched (final (dispatch ex_edit_seed ex_valid Submit)) Title"
    by simp
  from val a c ne show ?thesis by (simp add: seeds)
qed

text \<open>
  As the specification words it, C5 fails where a seed title is supplied and is the empty string: the form is
  valid, \<open>onSubmit\<close> is called, and the reset step still clears the title and the
  touched flags that the flush had committed.
\<close>

theorem C5_counterexample:
  "init_title (initialData ex_empty_seed) = Some []
   \<and> isValid (validateForm (formData ex_valid))
   \<and> calls (dispatch ex_empty_seed ex_valid Submit) = [formData ex_valid]
   \<and> title (formData (hd (commits (dispatch ex_empty_seed ex_valid Submit)))) = lit ''Test Task''
   \<and> touched (hd (commits (dispatch ex_empty_seed ex_valid Submit))) Title
   \<and> title (formData (final (dispatch ex_empty_seed ex_valid Submit))) = []
   \<and> \<not> touched (final (dispatch ex_empty_seed ex_valid Submit)) Title
   \<and> final (dispatch ex_empty_seed ex_valid Submit)
       \<noteq> hd (commits (dispatch ex_empty_seed ex_valid Submit))"
proof -
  have f: "\<not> truthy (init_title (initialData ex_empty_seed))" by (simp add: seeds)
  have "touched (final (dispatch ex_empty_seed ex_valid Submit)) Title
        \<noteq> touched (hd (commits (dispatch ex_empty_seed ex_valid Submit))) Title"
    by (simp add: submit_valid_create [OF ex_valid_ok f])
  then have "final (dispatch ex_empty_seed ex_valid Submit)
       \<noteq> hd (commits (dispatch ex_empty_seed ex_valid Submit))" by auto
  then show ?thesis
    by (simp add: submit_valid_create [OF ex_valid_ok f] seeds ex_valid_ok default_form_data_def)
      (simp add: ex_valid_def)
qed


text \<open>
  C6. For every task collection and target id, \<open>handleToggleComplete\<close> returns a
  collection of the same length over a heap whose old objects are all unchanged. At every
  position: a task whose id does not match is the same object as before, unchanged in
  every field; a task whose id matches is a newly allocated object, with \<open>completed\<close>
  flipped, \<open>updatedAt\<close> set to the clock reading taken for it, and id, title, description,
  priority and \<open>createdAt\<close> as in the old object.
\<close>

theorem C6_toggle_frame:
  assumes "wf_refs h rs" and "handleToggleComplete clk k taskId h rs = (h', rs')"
    and "i < length rs"
  shows "length rs' = length rs
     \<and> take (length h) h' = h
     \<and> (task_id (h ! (rs ! i)) \<noteq> taskId \<longrightarrow>
          rs' ! i = rs ! i \<and> h' ! (rs' ! i) = h ! (rs ! i))
     \<and> (task_id (h ! (rs ! i)) = taskId \<longrightarrow>
          length h \<le> rs' ! i \<and> rs' ! i < length h'
          \<and> completed (h' ! (rs' ! i)) = (\<not> completed (h ! (rs ! i)))
          \<and> updatedAt (h' ! (rs' ! i)) = clk (k + matches_before taskId h rs i)
          \<and> task_id (h' ! (rs' ! i)) = task_id (h ! (rs ! i))
          \<and> task_title (h' ! (rs' ! i)) = task_title (h ! (rs ! i))
          \<and> task_description (h' ! (rs' ! i)) = task_description (h ! (rs ! i))
          \<and> task_priority (h' ! (rs' ! i)) = task_priority (h ! (rs ! i))
          \<and> createdAt (h' ! (rs' ! i)) = createdAt (h ! (rs ! i)))"
proof -
  from toggle_heap_grows [OF assms(2)] obtain ext
    where ext: "h' = h @ ext" and len: "length rs' = length rs" by blast
  from assms(1,3) have ri: "rs ! i < length h"
    by (simp add: wf_refs_def list_all_iff)
  note at = toggle_at [OF assms]
  show ?thesis
  proof (cases "task_id (h ! (rs ! i)) = taskId")
    case True
    with at have "length h \<le> rs' ! i" "rs' ! i < length h'"
      "h' ! (rs' ! i) = toggled clk (k + matches_before taskId h rs i) (h ! (rs ! i))"
      by simp_all
    with True len ext show ?thesis by (simp add: toggled_def)
  next
    case False
    with at have "rs' ! i = rs ! i" by simp
    with False len ext ri show ?thesis by (simp add: nth_append)
  qed
qed

theorem C6_toggle_frame_witness:
  "wf_refs [ex_task1, ex_task2] [0, 1]
   \<and> handleToggleComplete (\<lambda>_. 2000) 0 (lit ''test-1'') [ex_task1, ex_task2] [0, 1]
       = ([ex_task1, ex_task2, ex_task1\<lparr>completed := True, updatedAt := 2000\<rparr>], [2, 1])
   \<and> task_id ([ex_task1, ex_task2] ! ([0, 1] ! 0)) = lit ''test-1''
   \<and> task_id ([ex_task1, ex_task2] ! ([0, 1] ! 1)) \<noteq> lit ''test-1''
   \<and> completed ex_task1 = False
   \<and> completed ([ex_task1, ex_task2, ex_task1\<lparr>completed := True, updatedAt := 2000\<rparr>] ! 2) = True
   \<and> updatedAt ([ex_task1, ex_task2, ex_task1\<lparr>completed := True, updatedAt := 2000\<rparr>] ! 2) = 2000
   \<and> createdAt ([ex_task1, ex_task2, ex_task1\<lparr>completed := True, updatedAt := 2000\<rparr>] ! 2)
       = createdAt ex_task1
   \<and> take 2 [ex_task1, ex_task2, ex_task1\<lparr>completed := True, updatedAt := 2000\<rparr>]
       = [ex_task1, ex_task2]"
proof -
  have wf: "wf_refs [ex_task1, ex_task2] [0, 1]" by (simp add: wf_refs_def)
  have i0: "(0::nat) < length [0::nat, 1]" and i1: "(1::nat) < length [0::nat, 1]" by simp_all
  note a = C6_toggle_frame [OF wf ex_toggle i0]
  note b = C6_toggle_frame [OF wf ex_toggle i1]
  have m: "task_id ([ex_task1, ex_task2] ! ([0, 1] ! 0)) = lit ''test-1''"
    "task_id ([ex_task1, ex_task2] ! ([0, 1] ! 1)) \<noteq> lit ''test-1''"
    by (simp_all add: ex_ids)
  have c: "completed ex_task1 = False" by (simp add: ex_task1_def)
  from a m c have
    "completed ([ex_task1, ex_task2, ex_task1\<lparr>completed := True, updatedAt := 2000\<rparr>] ! 2) = True"
    "updatedAt ([ex_task1, ex_task2, ex_task1\<lparr>completed := True, updatedAt := 2000\<rparr>] ! 2) = 2000"
    "createdAt ([ex_task1, ex_task2, ex_task1\<lparr>completed := True, updatedAt := 2000\<rparr>] ! 2)
       = createdAt ex_task1"
    by simp_all
  moreover from b have "take 2 [ex_task1, ex_task2, ex_task1\<lparr>completed := True, updatedAt := 2000\<rparr>]
       = [ex_task1, ex_task2]" by simp
  ultimately show ?thesis using wf ex_toggle m c by simp
qed


text \<open>
  C7. For every task collection: deleting an id that no task has leaves the collection as
  it is. In general the result is a subsequence of the collection (the remaining tasks
  keep their relative order), it has no task with the deleted id, every task with another
  id occurs in it as often as before, and deleting the same id again changes nothing.
\<close>

theorem C7_delete:
  "((\<forall>t \<in> set ts. task_id t \<noteq> taskId) \<longrightarrow> handleDeleteTask taskId ts = ts)
   \<and> subseq (handleDeleteTask taskId ts) ts
   \<and> (\<forall>t \<in> set (handleDeleteTask taskId ts). task_id t \<noteq> taskId)
   \<and> (\<forall>t. task_id t \<noteq> taskId \<longrightarrow>
         count_list (handleDeleteTask taskId ts) t = count_list ts t)
   \<and> handleDeleteTask taskId (handleDeleteTask taskId ts) = handleDeleteTask taskId ts"
proof -
  have "count_list (filter P ts) t = count_list ts t" if "P t" for P and t :: task
    using that by (induction ts) auto
  then show ?thesis
    by (auto simp add: handleDeleteTask_def filter_id_conv)
qed

theorem C7_delete_witness:
  "task_id ex_task1 \<noteq> lit ''test-3'' \<and> task_id ex_task2 \<noteq> lit ''test-3''
   \<and> handleDeleteTask (lit ''test-3'') [ex_task1, ex_task2] = [ex_task1, ex_task2]
   \<and> handleDeleteTask (lit ''test-1'') [ex_task1, ex_task2, ex_task1] = [ex_task2]
   \<and> task_id ex_task2 \<noteq> lit ''test-1''
   \<and> count_list (handleDeleteTask (lit ''test-1'') [ex_task1, ex_task2, ex_task1]) ex_task2
       = count_list [ex_task1, ex_task2, ex_task1] ex_task2"
proof -
  have n: "\<forall>t \<in> set [ex_task1, ex_task2]. task_id t \<noteq> lit ''test-3''"
    using ex_ids by simp
  from C7_delete [of "[ex_task1, ex_task2]" "lit ''test-3''"] n
  have a: "handleDeleteTask (lit ''test-3'') [ex_task1, ex_task2] = [ex_task1, ex_task2]"
    by blast
  have b: "handleDeleteTask (lit ''test-1'') [ex_task1, ex_task2, ex_task1] = [ex_task2]"
    by (simp add: handleDeleteTask_def ex_ids)
  have c: "task_id ex_task2 \<noteq> lit ''test-1''" by (simp add: ex_ids)
  from C7_delete [of "[ex_task1, ex_task2, ex_task1]" "lit ''test-1''"] c
  have d: "count_list (handleDeleteTask (lit ''test-1'') [ex_task1, ex_task2, ex_task1]) ex_task2
       = count_list [ex_task1, ex_task2, ex_task1] ex_task2" by blast
  from n a b c d show ?thesis by simp
qed


text \<open>
  C8. The specification asks for an id distinct from every other created task's id and for
  \<open>createdAt = updatedAt\<close>. The id is the text of one clock reading and the two
  timestamps are two further readings: two tasks created within one millisecond get the
  same id, and a tick between the last two readings separates \<open>createdAt\<close> from
  \<open>updatedAt\<close>. Here two creations run back to back on a clock that reads 1000 five
  times and then 1001.
\<close>

theorem C8_same_millisecond:
  "handleCreateTask ex_clock 0 ex_data [] = ([newTask ex_clock 0 ex_data], 3)
   \<and> handleCreateTask ex_clock 3 ex_data [newTask ex_clock 0 ex_data]
       = ([newTask ex_clock 3 ex_data, newTask ex_clock 0 ex_data], 6)
   \<and> task_id (newTask ex_clock 0 ex_data) = lit ''task-1000''
   \<and> task_id (newTask ex_clock 3 ex_data) = lit ''task-1000''
   \<and> createdAt (newTask ex_clock 3 ex_data) = 1000
   \<and> updatedAt (newTask ex_clock 3 ex_data) = 1001"
  by (simp add: handleCreateTask_def newTask_def ex_clock_def decimal_1000 lit_def)




text \<open>
  C10. Whether a successful submit resets the form is decided by the truthiness of
  \<open>initialData.title\<close>, not by whether \<open>initialData\<close> was supplied: the form is left in
  the reset state exactly when the seed title is absent or empty; in particular when
  \<open>initialData\<close> is omitted and when its title is the empty string. Any non-empty seed
  title suppresses the reset.
\<close>

theorem C10_mode_by_truthiness:
  assumes "\<forall>f. validateField f (field_value (formData s) f) = None"
  shows "(final (dispatch p s Submit) = reset_state) = (\<not> truthy (init_title (initialData p)))
     \<and> (p = None \<longrightarrow> final (dispatch p s Submit) = reset_state)
     \<and> (init_title (initialData p) = Some [] \<longrightarrow> final (dispatch p s Submit) = reset_state)
     \<and> (\<forall>t. init_title (initialData p) = Some t \<and> t \<noteq> [] \<longrightarrow>
          final (dispatch p s Submit)
            = s\<lparr>errors := (\<lambda>f. validateField f (field_value (formData s) f)),
                 touched := (\<lambda>_. True)\<rparr>)"
proof -
  from assms have v: "isValid (validateForm (formData s))" by (simp add: isValid_iff)
  have n: "\<not> truthy (init_title (initialData None))"
    by (simp add: initialData_def no_initial_data_def)
  have edit: "final (dispatch p s Submit)
        = s\<lparr>errors := (\<lambda>f. validateField f (field_value (formData s) f)),
             touched := (\<lambda>_. True)\<rparr>" if "truthy (init_title (initialData p))"
    by (simp add: submit_valid_edit [OF v that] v_errors_validateForm
        del: validateField.simps)
  have create: "final (dispatch p s Submit) = reset_state"
    if "\<not> truthy (init_title (initialData p))"
    by (simp add: submit_valid_create [OF v that] reset_state_def)
  have A: "(final (dispatch p s Submit) = reset_state) = (\<not> truthy (init_title (initialData p)))"
  proof (cases "truthy (init_title (initialData p))")
    case True
    have "touched (final (dispatch p s Submit)) Title \<noteq> touched reset_state Title"
      by (simp add: edit [OF True] reset_state_def)
    then have "final (dispatch p s Submit) \<noteq> reset_state" by auto
    with True show ?thesis by simp
  next
    case False
    with create show ?thesis by simp
  qed
  have B: "p = None \<longrightarrow> final (dispatch p s Submit) = reset_state"
    using create n by (cases p) simp_all
  have C: "init_title (initialData p) = Some [] \<longrightarrow> final (dispatch p s Submit) = reset_state"
    using create by simp
  have D: "\<forall>t. init_title (initialData p) = Some t \<and> t \<noteq> [] \<longrightarrow>
          final (dispatch p s Submit)
            = s\<lparr>errors := (\<lambda>f. validateField f (field_value (formData s) f)),
                 touched := (\<lambda>_. True)\<rparr>"
    using edit by simp
  from A B C D show ?thesis by blast
qed

theorem C10_mode_by_truthiness_witness:
  "(\<forall>f. validateField f (field_value (formData ex_valid) f) = None)
   \<and> final (dispatch None ex_valid Submit) = reset_state
   \<and> init_title (initialData ex_empty_seed) = Some []
   \<and> final (dispatch ex_empty_seed ex_valid Submit) = reset_state
   \<and> init_title (initialData ex_edit_seed) = Some (lit ''Test Task'') \<and> lit ''Test Task'' \<noteq> []
   \<and> final (dispatch ex_edit_seed ex_valid Submit) \<noteq> reset_state
   \<and> formData (final (dispatch ex_edit_seed ex_valid Submit)) = formData ex_valid"
proof -
  have val: "\<forall>f. validateField f (field_value (formData ex_valid) f) = None"
    using ex_valid_ok by (simp add: isValid_iff)
  have ne: "lit ''Test Task'' \<noteq> []" by (simp add: lit_def)
  note a = C10_mode_by_truthiness [OF val, of None]
  note b = C10_mode_by_truthiness [OF val, of ex_empty_seed]
  note c = C10_mode_by_truthiness [OF val, of ex_edit_seed]
  have 1: "final (dispatch None ex_valid Submit) = reset_state" using a by simp
  have 2: "final (dispatch ex_empty_seed ex_valid Submit) = reset_state"
    using b by (simp add: seeds)
  have 3: "final (dispatch ex_edit_seed ex_valid Submit) \<noteq> reset_state"
    using c [THEN conjunct1] ne by (simp add: seeds)
  have 4: "formData (final (dispatch ex_edit_seed ex_valid Submit)) = formData ex_valid"
    using c ne by (simp add: seeds)
  from val 1 2 3 4 ne show ?thesis by (simp add: seeds)
qed

end
